theory Spec2Isabelle
  imports Main
begin

section \<open>Values of the host language\<close>

text \<open>
  \<^verbatim>\<open>WebSocketHelper\<close> passes values of type \<^verbatim>\<open>unknown\<close> around: what the caller hands to
  \<^verbatim>\<open>send\<close> and what \<^verbatim>\<open>JSON.parse\<close> returns. They are modelled as a tree. Three things are
  carried less precisely than the host does, and no property below depends on them: a
  number is its decimal literal (no IEEE rounding), an object is the list of its members
  in source order, and a character is one of HOL's 8-bit characters (a \<^verbatim>\<open>\u\<close> escape keeps
  its low byte).
\<close>

datatype jsval =
    JUndefined
  | JNull
  | JBool bool
  | JNumber string
  | JBigInt int
  | JString string
  | JArray "jsval list"
  | JObject "(string \<times> jsval) list"
  | JBlob "nat list"

text \<open>What a message event carries in \<^verbatim>\<open>data\<close>: the text of a text frame, or a binary object.\<close>

datatype payload = Text string | Binary "nat list"

datatype error = TypeError | SyntaxError | InvalidMessage

subsection \<open>\<^verbatim>\<open>JSON.parse\<close>\<close>

text \<open>
  The grammar of ECMA-404, as a scanner that reads one character at a time and a parser
  over its tokens that keeps the open arrays and objects on a stack. \<open>None\<close> is the
  \<^verbatim>\<open>SyntaxError\<close> that \<^verbatim>\<open>JSON.parse\<close> throws.
\<close>

datatype token =
    TLBrace | TRBrace | TLBracket | TRBracket | TColon | TComma
  | TString string | TNumber string | TTrue | TFalse | TNull

datatype scan_mode =
    Top
  | InString string
  | InEscape string
  | InUnicode string "nat list"
  | InNumber string
  | InWord string

definition is_digit :: "char \<Rightarrow> bool" where
  "is_digit c = (48 \<le> (of_char c :: nat) \<and> (of_char c :: nat) \<le> 57)"

definition is_lower :: "char \<Rightarrow> bool" where
  "is_lower c = (97 \<le> (of_char c :: nat) \<and> (of_char c :: nat) \<le> 122)"

definition is_space :: "char \<Rightarrow> bool" where
  "is_space c = ((of_char c :: nat) = 32 \<or> (of_char c :: nat) = 9
     \<or> (of_char c :: nat) = 10 \<or> (of_char c :: nat) = 13)"

definition hex_value :: "char \<Rightarrow> nat option" where
  "hex_value c =
     (let n = (of_char c :: nat)
      in if 48 \<le> n \<and> n \<le> 57 then Some (n - 48)
         else if 97 \<le> n \<and> n \<le> 102 then Some (n - 87)
         else if 65 \<le> n \<and> n \<le> 70 then Some (n - 55)
         else None)"

definition is_number_char :: "char \<Rightarrow> bool" where
  "is_number_char c = (is_digit c \<or> c = CHR ''.'' \<or> c = CHR ''e'' \<or> c = CHR ''E''
     \<or> c = CHR ''+'' \<or> c = CHR ''-'')"

definition valid_exponent :: "string \<Rightarrow> bool" where
  "valid_exponent r =
     (case r of
        [] \<Rightarrow> True
      | c # r' \<Rightarrow>
          if c = CHR ''e'' \<or> c = CHR ''E''
          then (let ds = (case r' of
                            [] \<Rightarrow> []
                          | s # t \<Rightarrow> if s = CHR ''+'' \<or> s = CHR ''-'' then t else r')
                in ds \<noteq> [] \<and> list_all is_digit ds)
          else False)"

definition valid_fraction :: "string \<Rightarrow> bool" where
  "valid_fraction r =
     (case r of
        [] \<Rightarrow> True
      | c # r' \<Rightarrow>
          if c = CHR ''.''
          then (case r' of
                  [] \<Rightarrow> False
                | d # _ \<Rightarrow> is_digit d \<and> valid_exponent (dropWhile is_digit r'))
          else valid_exponent r)"

definition valid_number :: "string \<Rightarrow> bool" where
  "valid_number s =
     (case (case s of [] \<Rightarrow> [] | c # r \<Rightarrow> if c = CHR ''-'' then r else s) of
        [] \<Rightarrow> False
      | d # r \<Rightarrow>
          if d = CHR ''0'' then valid_fraction r
          else if is_digit d then valid_fraction (dropWhile is_digit r)
          else False)"

definition unescape :: "char \<Rightarrow> char option" where
  "unescape c =
     (if c = CHR 0x22 \<or> c = CHR 0x5C \<or> c = CHR ''/'' then Some c
      else if c = CHR ''b'' then Some (CHR 0x08)
      else if c = CHR ''f'' then Some (CHR 0x0C)
      else if c = CHR ''n'' then Some (CHR 0x0A)
      else if c = CHR ''r'' then Some (CHR 0x0D)
      else if c = CHR ''t'' then Some (CHR 0x09)
      else None)"

definition close_number :: "string \<Rightarrow> token list \<Rightarrow> token list option" where
  "close_number acc ts = (if valid_number (rev acc) then Some (TNumber (rev acc) # ts) else None)"

definition close_word :: "string \<Rightarrow> token list \<Rightarrow> token list option" where
  "close_word acc ts =
     (if rev acc = ''true'' then Some (TTrue # ts)
      else if rev acc = ''false'' then Some (TFalse # ts)
      else if rev acc = ''null'' then Some (TNull # ts)
      else None)"

definition scan_start :: "char \<Rightarrow> token list \<Rightarrow> (scan_mode \<times> token list) option" where
  "scan_start c ts =
     (if is_space c then Some (Top, ts)
      else if c = CHR ''{'' then Some (Top, TLBrace # ts)
      else if c = CHR ''}'' then Some (Top, TRBrace # ts)
      else if c = CHR ''['' then Some (Top, TLBracket # ts)
      else if c = CHR '']'' then Some (Top, TRBracket # ts)
      else if c = CHR '':'' then Some (Top, TColon # ts)
      else if c = CHR '','' then Some (Top, TComma # ts)
      else if c = CHR 0x22 then Some (InString [], ts)
      else if c = CHR ''-'' \<or> is_digit c then Some (InNumber [c], ts)
      else if is_lower c then Some (InWord [c], ts)
      else None)"

fun scan_step :: "scan_mode \<Rightarrow> token list \<Rightarrow> char \<Rightarrow> (scan_mode \<times> token list) option" where
  "scan_step Top ts c = scan_start c ts"
| "scan_step (InString acc) ts c =
     (if c = CHR 0x22 then Some (Top, TString (rev acc) # ts)
      else if c = CHR 0x5C then Some (InEscape acc, ts)
      else if (of_char c :: nat) < 32 then None
      else Some (InString (c # acc), ts))"
| "scan_step (InEscape acc) ts c =
     (if c = CHR ''u'' then Some (InUnicode acc [], ts)
      else (case unescape c of
              None \<Rightarrow> None
            | Some x \<Rightarrow> Some (InString (x # acc), ts)))"
| "scan_step (InUnicode acc hs) ts c =
     (case hex_value c of
        None \<Rightarrow> None
      | Some h \<Rightarrow>
          (case hs of
             [h1, h2, h3] \<Rightarrow> Some (InString (char_of (16 * h1 + h) # acc), ts)
           | _ \<Rightarrow> Some (InUnicode acc (h # hs), ts)))"
| "scan_step (InNumber acc) ts c =
     (if is_number_char c then Some (InNumber (c # acc), ts)
      else (case close_number acc ts of
              None \<Rightarrow> None
            | Some ts' \<Rightarrow> scan_start c ts'))"
| "scan_step (InWord acc) ts c =
     (if is_lower c then Some (InWord (c # acc), ts)
      else (case close_word acc ts of
              None \<Rightarrow> None
            | Some ts' \<Rightarrow> scan_start c ts'))"

definition scan_finish :: "scan_mode \<Rightarrow> token list \<Rightarrow> token list option" where
  "scan_finish m ts =
     (case m of
        Top \<Rightarrow> Some (rev ts)
      | InNumber acc \<Rightarrow> map_option rev (close_number acc ts)
      | InWord acc \<Rightarrow> map_option rev (close_word acc ts)
      | _ \<Rightarrow> None)"

fun scan :: "scan_mode \<Rightarrow> token list \<Rightarrow> string \<Rightarrow> token list option" where
  "scan m ts [] = scan_finish m ts"
| "scan m ts (c # cs) =
     (case scan_step m ts c of
        None \<Rightarrow> None
      | Some (m', ts') \<Rightarrow> scan m' ts' cs)"

text \<open>
  The parser's stack holds the arrays and objects that are still open: the elements or
  members read so far (latest first) and, for an object whose member value is being read,
  that member's key.
\<close>

datatype frame =
    FArray "jsval list"
  | FObject "(string \<times> jsval) list"
  | FMember "(string \<times> jsval) list" string

datatype phase =
    PValue
  | PFirstElement
  | PFirstKey
  | PKey
  | PColon string
  | PAfter jsval

definition begin_value :: "token \<Rightarrow> frame list \<Rightarrow> (phase \<times> frame list) option" where
  "begin_value t st =
     (case t of
        TLBracket \<Rightarrow> Some (PFirstElement, FArray [] # st)
      | TLBrace \<Rightarrow> Some (PFirstKey, FObject [] # st)
      | TString s \<Rightarrow> Some (PAfter (JString s), st)
      | TNumber n \<Rightarrow> Some (PAfter (JNumber n), st)
      | TTrue \<Rightarrow> Some (PAfter (JBool True), st)
      | TFalse \<Rightarrow> Some (PAfter (JBool False), st)
      | TNull \<Rightarrow> Some (PAfter JNull, st)
      | _ \<Rightarrow> None)"

fun parse_step :: "phase \<Rightarrow> frame list \<Rightarrow> token \<Rightarrow> (phase \<times> frame list) option" where
  "parse_step PValue st t = begin_value t st"
| "parse_step PFirstElement st t =
     (case (t, st) of
        (TRBracket, FArray es # st') \<Rightarrow> Some (PAfter (JArray (rev es)), st')
      | _ \<Rightarrow> begin_value t st)"
| "parse_step PFirstKey st t =
     (case (t, st) of
        (TRBrace, FObject ms # st') \<Rightarrow> Some (PAfter (JObject (rev ms)), st')
      | (TString k, _) \<Rightarrow> Some (PColon k, st)
      | _ \<Rightarrow> None)"
| "parse_step PKey st t =
     (case t of
        TString k \<Rightarrow> Some (PColon k, st)
      | _ \<Rightarrow> None)"
| "parse_step (PColon k) st t =
     (case (t, st) of
        (TColon, FObject ms # st') \<Rightarrow> Some (PValue, FMember ms k # st')
      | _ \<Rightarrow> None)"
| "parse_step (PAfter v) st t =
     (case (t, st) of
        (TComma, FArray es # st') \<Rightarrow> Some (PValue, FArray (v # es) # st')
      | (TRBracket, FArray es # st') \<Rightarrow> Some (PAfter (JArray (rev (v # es))), st')
      | (TComma, FMember ms k # st') \<Rightarrow> Some (PKey, FObject ((k, v) # ms) # st')
      | (TRBrace, FMember ms k # st') \<Rightarrow> Some (PAfter (JObject (rev ((k, v) # ms))), st')
      | _ \<Rightarrow> None)"

fun parse_tokens :: "phase \<Rightarrow> frame list \<Rightarrow> token list \<Rightarrow> jsval option" where
  "parse_tokens ph st [] =
     (case (ph, st) of
        (PAfter v, []) \<Rightarrow> Some v
      | _ \<Rightarrow> None)"
| "parse_tokens ph st (t # ts) =
     (case parse_step ph st t of
        None \<Rightarrow> None
      | Some (ph', st') \<Rightarrow> parse_tokens ph' st' ts)"

definition JSON_parse :: "string \<Rightarrow> jsval option" where
  "JSON_parse s =
     (case scan Top [] s of
        None \<Rightarrow> None
      | Some ts \<Rightarrow> parse_tokens PValue [] ts)"

subsection \<open>\<^verbatim>\<open>JSON.stringify\<close>\<close>

text \<open>
  \<^verbatim>\<open>JSON.stringify\<close> returns a string, returns \<^verbatim>\<open>undefined\<close> (for \<^verbatim>\<open>undefined\<close> itself), or
  throws a \<^verbatim>\<open>TypeError\<close> (for a \<^verbatim>\<open>BigInt\<close> anywhere in the value). Inside an array
  \<^verbatim>\<open>undefined\<close> is written \<^verbatim>\<open>null\<close>; inside an object such a member is left out. A
  \<^verbatim>\<open>Blob\<close> has no enumerable property of its own and is written \<^verbatim>\<open>{}\<close>.
\<close>

datatype serialized = SThrows | SUndefined | SText string

definition hex_digit :: "nat \<Rightarrow> char" where
  "hex_digit n = (if n < 10 then char_of (48 + n) else char_of (87 + n))"

definition quote_char :: "char \<Rightarrow> string" where
  "quote_char c =
     (if c = CHR 0x22 then [CHR 0x5C, CHR 0x22]
      else if c = CHR 0x5C then [CHR 0x5C, CHR 0x5C]
      else if c = CHR 0x08 then [CHR 0x5C, CHR ''b'']
      else if c = CHR 0x0C then [CHR 0x5C, CHR ''f'']
      else if c = CHR 0x0A then [CHR 0x5C, CHR ''n'']
      else if c = CHR 0x0D then [CHR 0x5C, CHR ''r'']
      else if c = CHR 0x09 then [CHR 0x5C, CHR ''t'']
      else if (of_char c :: nat) < 32
      then [CHR 0x5C, CHR ''u'', CHR ''0'', CHR ''0'',
            hex_digit ((of_char c :: nat) div 16), hex_digit ((of_char c :: nat) mod 16)]
      else [c])"

definition JSON_quote :: "string \<Rightarrow> string" where
  "JSON_quote s = CHR 0x22 # concat (map quote_char s) @ [CHR 0x22]"

fun join :: "string \<Rightarrow> string list \<Rightarrow> string" where
  "join sep [] = []"
| "join sep [x] = x"
| "join sep (x # y # ys) = x @ sep @ join sep (y # ys)"

definition element_text :: "serialized \<Rightarrow> string" where
  "element_text r = (case r of SText t \<Rightarrow> t | _ \<Rightarrow> ''null'')"

definition member_text :: "string \<times> serialized \<Rightarrow> string list" where
  "member_text m = (case snd m of SText t \<Rightarrow> [JSON_quote (fst m) @ '':'' @ t] | _ \<Rightarrow> [])"

fun JSON_stringify :: "jsval \<Rightarrow> serialized" where
  "JSON_stringify JUndefined = SUndefined"
| "JSON_stringify JNull = SText ''null''"
| "JSON_stringify (JBool b) = SText (if b then ''true'' else ''false'')"
| "JSON_stringify (JNumber n) = SText n"
| "JSON_stringify (JBigInt n) = SThrows"
| "JSON_stringify (JString s) = SText (JSON_quote s)"
| "JSON_stringify (JBlob b) = SText ''{}''"
| "JSON_stringify (JArray vs) =
     (let rs = map JSON_stringify vs
      in if SThrows \<in> set rs then SThrows
         else SText (''['' @ join '','' (map element_text rs) @ '']''))"
| "JSON_stringify (JObject ms) =
     (let rs = map (\<lambda>m. (fst m, JSON_stringify (snd m))) ms
      in if SThrows \<in> snd ` set rs then SThrows
         else SText (''{'' @ join '','' (concat (map member_text rs)) @ ''}''))"

section \<open>The state of a \<^verbatim>\<open>WebSocketHelper\<close> and of the objects it holds\<close>

text \<open>
  The helper holds references to objects of the host: the \<^verbatim>\<open>WebSocket\<close>s it has
  constructed, the promises \<^verbatim>\<open>connect\<close> has returned, and the subscribers that
  \<^verbatim>\<open>initPublish\<close> has attached to a socket. Each kind lives in a list and a reference is
  an index into it, so that an old socket can still fire an event after \<^verbatim>\<open>this.ws\<close> has
  moved on. A callback of the application is a number; \<open>delivered\<close> records, in order,
  which callback was handed which value. \<open>reconnect_calls\<close> counts the calls of
  \<^verbatim>\<open>reconnect\<close>. Neither is a field of the source: they are what an observer of the helper
  would write down.
\<close>

datatype ready_state = CONNECTING | OPEN | CLOSING | CLOSED

text \<open>
  The two closures the source assigns to \<^verbatim>\<open>onerror\<close>: \<^verbatim>\<open>() => resolve(false)\<close> in
  \<^verbatim>\<open>connect\<close>, for the promise of that call, and \<^verbatim>\<open>observer.complete.bind(observer)\<close>
  in \<^verbatim>\<open>initPublish\<close>, for the subscriber of that call.
\<close>

datatype error_listener = ResolveFalse nat | ObserverComplete nat

record websocket =
  readyState :: ready_state
  onopen :: "nat option"
  onerror :: "error_listener option"
  onmessage :: "nat option"
  onclose :: "nat option"
  sent :: "string list"

datatype settlement = Pending | Fulfilled bool | Rejected error

text \<open>
  \<open>awaited_by\<close> is the suspended loop of \<^verbatim>\<open>reconnect\<close> that awaits the promise, with the
  values of \<^verbatim>\<open>reconnectTime\<close> and \<^verbatim>\<open>limits\<close> at the \<^verbatim>\<open>await\<close>; \<open>None\<close> when the promise
  went to the caller of \<^verbatim>\<open>connect\<close>.
\<close>

record promise =
  settled :: settlement
  awaited_by :: "(nat \<times> int) option"

text \<open>An rxjs \<^verbatim>\<open>Subject\<close>: its observers (subscription and callback) in registration order.\<close>

record subject =
  observers :: "(nat \<times> nat) list"
  isStopped :: bool

record WebSocketOptions =
  autoReconnect :: "bool option"
  reconnectLimits :: "int option"

record WebSocketHelper =
  status :: bool
  ws :: "nat option"
  publisher :: "subject option"
  listeners :: "nat list"
  url :: string
  options :: WebSocketOptions
  cacheMessages :: "payload list"
  sockets :: "websocket list"
  promises :: "promise list"
  subscribers :: "bool list"
  subscriptions :: nat
  delivered :: "(nat \<times> jsval) list"
  reconnect_calls :: nat

definition initial :: WebSocketHelper where
  "initial =
     \<lparr>status = False, ws = None, publisher = None, listeners = [], url = [],
      options = \<lparr>autoReconnect = Some True, reconnectLimits = Some 5\<rparr>,
      cacheMessages = [], sockets = [], promises = [], subscribers = [],
      subscriptions = 0, delivered = [], reconnect_calls = 0\<rparr>"

text \<open>
  A reference held by the helper always names an existing socket; the test keeps the
  function total.
\<close>

definition update_socket :: "nat \<Rightarrow> (websocket \<Rightarrow> websocket) \<Rightarrow> WebSocketHelper \<Rightarrow> WebSocketHelper" where
  "update_socket w f h =
     (if w < length (sockets h) then h\<lparr>sockets := (sockets h)[w := f (sockets h ! w)]\<rparr> else h)"

section \<open>The operations of the helper\<close>

subsection \<open>\<^verbatim>\<open>connect\<close> and \<^verbatim>\<open>reconnect\<close>\<close>

text \<open>
  \<^verbatim>\<open>connect\<close> stores its arguments and runs the promise's executor, which constructs the
  socket. The constructor of the host throws a \<^verbatim>\<open>SyntaxError\<close> when the URL does not
  parse, when its scheme is not one it takes, and when it has a fragment; a throw inside
  an executor rejects the promise, and the assignments after it do not happen. A fragment
  starts at the first \<^verbatim>\<open>#\<close>, so that case is written out; the other two are the parameter
  \<open>url_ok\<close>. A new socket is \<^verbatim>\<open>CONNECTING\<close>, with the two listeners of the source.

  \<open>connect_awaited\<close> is \<^verbatim>\<open>connect\<close> together with who awaits the promise it returns;
  the promise is the last one of \<open>promises\<close>.
\<close>

definition connect_awaited ::
  "(string \<Rightarrow> bool) \<Rightarrow> (nat \<times> int) option \<Rightarrow> string \<Rightarrow> WebSocketOptions option
    \<Rightarrow> WebSocketHelper \<Rightarrow> WebSocketHelper" where
  "connect_awaited url_ok aw u opt h =
     (let h1 = h\<lparr>url := u, options := (case opt of None \<Rightarrow> options h | Some x \<Rightarrow> x)\<rparr>;
          p = length (promises h1)
      in if CHR ''#'' \<in> set u \<or> \<not> url_ok u
         then h1\<lparr>promises := promises h1 @ [\<lparr>settled = Rejected SyntaxError, awaited_by = aw\<rparr>]\<rparr>
         else h1\<lparr>ws := Some (length (sockets h1)),
                 sockets := sockets h1 @
                   [\<lparr>readyState = CONNECTING, onopen = Some p, onerror = Some (ResolveFalse p),
                     onmessage = None, onclose = None, sent = []\<rparr>],
                 promises := promises h1 @ [\<lparr>settled = Pending, awaited_by = aw\<rparr>]\<rparr>)"

definition connect ::
  "(string \<Rightarrow> bool) \<Rightarrow> string \<Rightarrow> WebSocketOptions option \<Rightarrow> WebSocketHelper \<Rightarrow> WebSocketHelper" where
  "connect url_ok u opt h = connect_awaited url_ok None u opt h"

text \<open>
  \<^verbatim>\<open>reconnect\<close> is an async function: it runs up to its first \<^verbatim>\<open>await\<close> and is resumed
  when the awaited promise settles. Its loop
  \<^verbatim>\<open>while (!await this.connect(this.url) && reconnectTime < limits) reconnectTime++\<close>
  is therefore split in two: \<open>reconnect\<close> makes the first call of \<^verbatim>\<open>connect\<close>, and
  \<open>resolve\<close> resumes the loop with the promise's value, testing the condition and, when
  it holds, counting and calling \<^verbatim>\<open>connect\<close> again. A rejected promise makes the
  \<^verbatim>\<open>await\<close> throw, which ends the loop. \<^verbatim>\<open>resolve\<close> on a settled promise does nothing.
\<close>

definition reconnect :: "(string \<Rightarrow> bool) \<Rightarrow> int option \<Rightarrow> WebSocketHelper \<Rightarrow> WebSocketHelper" where
  "reconnect url_ok limits h =
     (let h0 = h\<lparr>reconnect_calls := reconnect_calls h + 1\<rparr>
      in if url h0 = [] then h0
         else connect_awaited url_ok (Some (0, case limits of None \<Rightarrow> 5 | Some l \<Rightarrow> l))
                (url h0) None h0)"

definition resolve :: "(string \<Rightarrow> bool) \<Rightarrow> nat \<Rightarrow> bool \<Rightarrow> WebSocketHelper \<Rightarrow> WebSocketHelper" where
  "resolve url_ok p b h =
     (if p < length (promises h) \<and> settled (promises h ! p) = Pending
      then (let h1 = h\<lparr>promises := (promises h)[p := (promises h ! p)\<lparr>settled := Fulfilled b\<rparr>]\<rparr>
            in case awaited_by (promises h ! p) of
                 None \<Rightarrow> h1
               | Some (reconnectTime, limits) \<Rightarrow>
                   if \<not> b \<and> int reconnectTime < limits
                   then connect_awaited url_ok (Some (reconnectTime + 1, limits)) (url h1) None h1
                   else h1)
      else h)"

subsection \<open>\<^verbatim>\<open>send\<close> and \<^verbatim>\<open>close\<close>\<close>

text \<open>
  \<^verbatim>\<open>ws.send(undefined)\<close>, which is what the source calls when \<^verbatim>\<open>JSON.stringify\<close> returns
  \<^verbatim>\<open>undefined\<close>, transmits the text \<^verbatim>\<open>undefined\<close>.

  The \<^verbatim>\<open>catch\<close> block builds its error from the template \<^verbatim>\<open>`invalid message ${message}`\<close>,
  which converts the message to a string before the error exists. The conversion of an
  object calls its \<^verbatim>\<open>toString\<close>; a member of the object's own with that name stands in the
  way of the inherited one, and since no value here is callable the conversion then
  throws a \<^verbatim>\<open>TypeError\<close>. The conversion of an array converts its elements, except
  \<^verbatim>\<open>undefined\<close> and \<^verbatim>\<open>null\<close>, which it writes as nothing. Every other value converts.
\<close>

fun to_string_throws :: "jsval \<Rightarrow> bool" where
  "to_string_throws (JObject ms) = (''toString'' \<in> fst ` set ms)"
| "to_string_throws (JArray vs) = (True \<in> set (map to_string_throws vs))"
| "to_string_throws v = False"

definition encode :: "jsval \<Rightarrow> error + string" where
  "encode message =
     (case message of
        JString s \<Rightarrow> Inr s
      | _ \<Rightarrow>
          (case JSON_stringify message of
             SThrows \<Rightarrow> Inl (if to_string_throws message then TypeError else InvalidMessage)
           | SUndefined \<Rightarrow> Inr ''undefined''
           | SText t \<Rightarrow> Inr t))"

definition send :: "jsval \<Rightarrow> WebSocketHelper \<Rightarrow> (error + unit) \<times> WebSocketHelper" where
  "send message h =
     (case ws h of
        None \<Rightarrow> (Inr (), h)
      | Some w \<Rightarrow>
          if w < length (sockets h) \<and> readyState (sockets h ! w) = OPEN
          then (case encode message of
                  Inl e \<Rightarrow> (Inl e, h)
                | Inr sendMessage \<Rightarrow>
                    (Inr (), update_socket w (\<lambda>s. s\<lparr>sent := sent s @ [sendMessage]\<rparr>) h))
          else (Inr (), h))"

definition close :: "WebSocketHelper \<Rightarrow> WebSocketHelper" where
  "close h =
     (case ws h of
        None \<Rightarrow> h
      | Some w \<Rightarrow>
          update_socket w
            (\<lambda>s. if readyState s = CONNECTING \<or> readyState s = OPEN
                 then s\<lparr>readyState := CLOSING\<rparr> else s) h)"

subsection \<open>\<^verbatim>\<open>subscribe\<close> and \<^verbatim>\<open>clearCacheMessages\<close>\<close>

text \<open>
  \<^verbatim>\<open>Subject.next\<close> hands the value to every observer in registration order and does
  nothing once the subject is stopped. \<^verbatim>\<open>this.publisher!\<close> on \<^verbatim>\<open>null\<close> is a \<^verbatim>\<open>TypeError\<close>.
\<close>

definition publisher_next :: "jsval \<Rightarrow> WebSocketHelper \<Rightarrow> (error + unit) \<times> WebSocketHelper" where
  "publisher_next v h =
     (case publisher h of
        None \<Rightarrow> (Inl TypeError, h)
      | Some s \<Rightarrow>
          (Inr (), if isStopped s then h
                   else h\<lparr>delivered := delivered h @ map (\<lambda>ob. (snd ob, v)) (observers s)\<rparr>))"

text \<open>\<^verbatim>\<open>JSON.parse\<close> converts its argument to a string first.\<close>

definition to_string :: "payload \<Rightarrow> string" where
  "to_string d = (case d of Text s \<Rightarrow> s | Binary b \<Rightarrow> ''[object Blob]'')"

text \<open>
  The loop \<^verbatim>\<open>while (cacheMessage = this.cacheMessages.pop())\<close>: \<^verbatim>\<open>pop\<close> takes the last
  entry off, and the loop ends when what it returns is falsy, which is \<^verbatim>\<open>undefined\<close> (the
  array was empty) or the empty string. \<^verbatim>\<open>JSON.parse\<close> stands outside any \<^verbatim>\<open>try\<close>.
\<close>

function drain :: "WebSocketHelper \<Rightarrow> (error + unit) \<times> WebSocketHelper" where
  "drain h =
     (case cacheMessages h of
        [] \<Rightarrow> (Inr (), h)
      | _ # _ \<Rightarrow>
          (let cacheMessage = last (cacheMessages h);
               h1 = h\<lparr>cacheMessages := butlast (cacheMessages h)\<rparr>
           in if cacheMessage = Text [] then (Inr (), h1)
              else (case JSON_parse (to_string cacheMessage) of
                      None \<Rightarrow> (Inl SyntaxError, h1)
                    | Some v \<Rightarrow>
                        (case publisher_next v h1 of
                           (Inl e, h2) \<Rightarrow> (Inl e, h2)
                         | (Inr u, h2) \<Rightarrow> drain h2))))"
  by pat_completeness auto
termination
  by (relation "measure (\<lambda>h. length (cacheMessages h))")
     (auto simp: publisher_next_def split: option.splits if_splits)

definition clearCacheMessages :: "WebSocketHelper \<Rightarrow> (error + unit) \<times> WebSocketHelper" where
  "clearCacheMessages h = (if cacheMessages h = [] then (Inr (), h) else drain h)"

text \<open>
  \<^verbatim>\<open>Subject.subscribe\<close> on a stopped subject completes the new observer at once and does
  not register it. \<open>subscriptions\<close> numbers the subscription that is returned.
\<close>

definition subject_subscribe :: "nat \<Rightarrow> nat \<Rightarrow> subject \<Rightarrow> subject" where
  "subject_subscribe listen callback s =
     (if isStopped s then s else s\<lparr>observers := observers s @ [(listen, callback)]\<rparr>)"

definition subscribe :: "nat \<Rightarrow> WebSocketHelper \<Rightarrow> (error + unit) \<times> WebSocketHelper" where
  "subscribe callback h =
     (case publisher h of
        None \<Rightarrow> (Inl TypeError, h)
      | Some s \<Rightarrow>
          (let listen = subscriptions h;
               h1 = h\<lparr>publisher := Some (subject_subscribe listen callback s),
                      subscriptions := listen + 1\<rparr>
           in case clearCacheMessages h1 of
                (Inl e, h2) \<Rightarrow> (Inl e, h2)
              | (Inr u, h2) \<Rightarrow> (Inr (), h2\<lparr>listeners := listeners h2 @ [listen]\<rparr>)))"

subsection \<open>\<^verbatim>\<open>initPublish\<close> and its three callbacks\<close>

text \<open>
  The \<^verbatim>\<open>next\<close> callback. \<open>decode\<close> is its \<^verbatim>\<open>try\<close> statement: the parsed text, the text
  itself when \<^verbatim>\<open>JSON.parse\<close> throws, the data itself when it is not a string. An error
  thrown by the callback does not reach the transport.
\<close>

definition decode :: "payload \<Rightarrow> jsval" where
  "decode data =
     (case data of
        Text s \<Rightarrow> (case JSON_parse s of None \<Rightarrow> JString s | Some v \<Rightarrow> v)
      | Binary b \<Rightarrow> JBlob b)"

definition on_next :: "payload \<Rightarrow> WebSocketHelper \<Rightarrow> WebSocketHelper" where
  "on_next data h =
     (let message = decode data
      in if listeners h = [] then h\<lparr>cacheMessages := cacheMessages h @ [data]\<rparr>
         else snd (publisher_next message h))"

text \<open>The \<^verbatim>\<open>error\<close> callback: \<^verbatim>\<open>autoReconnect && this.reconnect(reconnectLimits)\<close>.\<close>

definition on_error :: "(string \<Rightarrow> bool) \<Rightarrow> WebSocketHelper \<Rightarrow> WebSocketHelper" where
  "on_error url_ok h =
     (if autoReconnect (options h) = Some True
      then reconnect url_ok (reconnectLimits (options h)) h
      else h)"

text \<open>
  The \<^verbatim>\<open>complete\<close> callback. \<^verbatim>\<open>Subject.complete\<close> stops the subject and drops its
  observers; \<^verbatim>\<open>unsubscribe\<close> takes a subscription out of the subject it was made on.
\<close>

definition on_complete :: "WebSocketHelper \<Rightarrow> WebSocketHelper" where
  "on_complete h =
     (let h1 = h\<lparr>status := False\<rparr>
      in case publisher h1 of
           None \<Rightarrow> h1
         | Some s \<Rightarrow>
             h1\<lparr>publisher :=
                  Some (s\<lparr>observers := filter (\<lambda>ob. fst ob \<notin> set (listeners h1))
                                          (if isStopped s then observers s else []),
                         isStopped := True\<rparr>),
                listeners := []\<rparr>)"

text \<open>
  What the socket's listeners are bound to is the subscriber rxjs wraps around the three
  callbacks: it passes \<^verbatim>\<open>next\<close> and \<^verbatim>\<open>complete\<close> on until it is stopped, and
  \<^verbatim>\<open>complete\<close> stops it. \<open>subscribers\<close> holds that flag for each subscriber.
\<close>

definition observer_next :: "nat \<Rightarrow> payload \<Rightarrow> WebSocketHelper \<Rightarrow> WebSocketHelper" where
  "observer_next ob data h =
     (if ob < length (subscribers h) \<and> \<not> subscribers h ! ob then on_next data h else h)"

definition observer_complete :: "nat \<Rightarrow> WebSocketHelper \<Rightarrow> WebSocketHelper" where
  "observer_complete ob h =
     (if ob < length (subscribers h) \<and> \<not> subscribers h ! ob
      then on_complete (h\<lparr>subscribers := (subscribers h)[ob := True]\<rparr>)
      else h)"

text \<open>
  \<^verbatim>\<open>initPublish\<close> makes a new subject and subscribes the three callbacks to an observable
  whose subscribe function assigns \<^verbatim>\<open>onmessage\<close>, \<^verbatim>\<open>onclose\<close> and \<^verbatim>\<open>onerror\<close> of
  \<^verbatim>\<open>this.ws\<close>; all three go to \<^verbatim>\<open>next\<close> and \<^verbatim>\<open>complete\<close> of the subscriber, none to its
  \<^verbatim>\<open>error\<close>. Were \<^verbatim>\<open>this.ws\<close> \<^verbatim>\<open>null\<close>, the subscribe function would throw, and rxjs hands
  what a subscribe function throws to the \<^verbatim>\<open>error\<close> callback of the subscriber, which
  it stops.
\<close>

definition initPublish :: "(string \<Rightarrow> bool) \<Rightarrow> WebSocketHelper \<Rightarrow> WebSocketHelper" where
  "initPublish url_ok h =
     (let h1 = h\<lparr>publisher := Some \<lparr>observers = [], isStopped = False\<rparr>\<rparr>;
          ob = length (subscribers h1)
      in case ws h1 of
           None \<Rightarrow> on_error url_ok (h1\<lparr>subscribers := subscribers h1 @ [True]\<rparr>)
         | Some w \<Rightarrow>
             update_socket w
               (\<lambda>s. s\<lparr>onmessage := Some ob, onclose := Some ob,
                      onerror := Some (ObserverComplete ob)\<rparr>)
               (h1\<lparr>subscribers := subscribers h1 @ [False]\<rparr>))"

section \<open>The events of the transport\<close>

text \<open>
  A socket fires \<^verbatim>\<open>open\<close> once, while it is connecting; \<^verbatim>\<open>message\<close> while it is open or
  closing; and it ends either with \<^verbatim>\<open>close\<close> alone or, when the connection failed, with
  \<^verbatim>\<open>error\<close> followed by \<^verbatim>\<open>close\<close>. It is \<^verbatim>\<open>CLOSED\<close> when these last events are fired. Each
  event runs the listener that is assigned at that moment. A loop that awaits a promise
  is resumed as soon as the listener that settled it returns, so in a failure it runs
  between the \<^verbatim>\<open>error\<close> and the \<^verbatim>\<open>close\<close> listener.
\<close>

definition fire_open :: "(string \<Rightarrow> bool) \<Rightarrow> nat \<Rightarrow> WebSocketHelper \<Rightarrow> WebSocketHelper" where
  "fire_open url_ok i h =
     (if i < length (sockets h) \<and> readyState (sockets h ! i) = CONNECTING
      then (let h1 = update_socket i (\<lambda>s. s\<lparr>readyState := OPEN\<rparr>) h
            in case onopen (sockets h1 ! i) of
                 None \<Rightarrow> h1
               | Some p \<Rightarrow> resolve url_ok p True (initPublish url_ok (h1\<lparr>status := True\<rparr>)))
      else h)"

definition fire_message :: "nat \<Rightarrow> payload \<Rightarrow> WebSocketHelper \<Rightarrow> WebSocketHelper" where
  "fire_message i data h =
     (if i < length (sockets h)
         \<and> (readyState (sockets h ! i) = OPEN \<or> readyState (sockets h ! i) = CLOSING)
      then (case onmessage (sockets h ! i) of
              None \<Rightarrow> h
            | Some ob \<Rightarrow> observer_next ob data h)
      else h)"

definition run_onclose :: "nat \<Rightarrow> WebSocketHelper \<Rightarrow> WebSocketHelper" where
  "run_onclose i h =
     (case onclose (sockets h ! i) of
        None \<Rightarrow> h
      | Some ob \<Rightarrow> observer_complete ob h)"

definition run_onerror :: "(string \<Rightarrow> bool) \<Rightarrow> nat \<Rightarrow> WebSocketHelper \<Rightarrow> WebSocketHelper" where
  "run_onerror url_ok i h =
     (case onerror (sockets h ! i) of
        None \<Rightarrow> h
      | Some (ResolveFalse p) \<Rightarrow> resolve url_ok p False h
      | Some (ObserverComplete ob) \<Rightarrow> observer_complete ob h)"

definition fire_close :: "nat \<Rightarrow> WebSocketHelper \<Rightarrow> WebSocketHelper" where
  "fire_close i h =
     (if i < length (sockets h) \<and> readyState (sockets h ! i) \<noteq> CLOSED
      then run_onclose i (update_socket i (\<lambda>s. s\<lparr>readyState := CLOSED\<rparr>) h)
      else h)"

definition fire_error :: "(string \<Rightarrow> bool) \<Rightarrow> nat \<Rightarrow> WebSocketHelper \<Rightarrow> WebSocketHelper" where
  "fire_error url_ok i h =
     (if i < length (sockets h) \<and> readyState (sockets h ! i) \<noteq> CLOSED
      then run_onclose i (run_onerror url_ok i (update_socket i (\<lambda>s. s\<lparr>readyState := CLOSED\<rparr>) h))
      else h)"

section \<open>Reachable states\<close>

text \<open>
  The states the helper can be in: the application calls the four public methods in any
  order, and each socket fires its events in any order the conditions above allow. The
  callbacks of the application are not followed into calls they make themselves.
\<close>

inductive reachable :: "(string \<Rightarrow> bool) \<Rightarrow> WebSocketHelper \<Rightarrow> bool"
  for url_ok :: "string \<Rightarrow> bool" where
  start: "reachable url_ok initial"
| call_connect: "reachable url_ok h \<Longrightarrow> reachable url_ok (connect url_ok u opt h)"
| call_send: "reachable url_ok h \<Longrightarrow> reachable url_ok (snd (send message h))"
| call_close: "reachable url_ok h \<Longrightarrow> reachable url_ok (close h)"
| call_subscribe: "reachable url_ok h \<Longrightarrow> reachable url_ok (snd (subscribe callback h))"
| event_open: "reachable url_ok h \<Longrightarrow> reachable url_ok (fire_open url_ok i h)"
| event_message: "reachable url_ok h \<Longrightarrow> reachable url_ok (fire_message i data h)"
| event_close: "reachable url_ok h \<Longrightarrow> reachable url_ok (fire_close i h)"
| event_error: "reachable url_ok h \<Longrightarrow> reachable url_ok (fire_error url_ok i h)"

section \<open>What the statements speak of\<close>

text \<open>
  A transport that never opens: every socket that is still connecting fails. \<open>failing n\<close>
  lets it fail \<open>n\<close> sockets, the oldest first, and stops before that when none is
  connecting.
\<close>

fun first_connecting :: "websocket list \<Rightarrow> nat option" where
  "first_connecting [] = None"
| "first_connecting (s # ss) =
     (if readyState s = CONNECTING then Some 0 else map_option Suc (first_connecting ss))"

fun failing :: "(string \<Rightarrow> bool) \<Rightarrow> nat \<Rightarrow> WebSocketHelper \<Rightarrow> WebSocketHelper" where
  "failing url_ok 0 h = h"
| "failing url_ok (Suc n) h =
     (case first_connecting (sockets h) of
        None \<Rightarrow> h
      | Some i \<Rightarrow> failing url_ok n (fire_error url_ok i h))"

text \<open>
  What a drain that runs to the end hands out. \<open>drainable\<close>: a payload the loop of
  \<^verbatim>\<open>clearCacheMessages\<close> gets past, which is a text that is not empty and that
  \<^verbatim>\<open>JSON.parse\<close> takes. \<open>fan_out\<close>: the deliveries of \<^verbatim>\<open>Subject.next\<close> for each value of a
  list in turn.
\<close>

definition drainable :: "payload \<Rightarrow> bool" where
  "drainable d = (d \<noteq> Text [] \<and> JSON_parse (to_string d) \<noteq> None)"

definition fan_out :: "subject \<Rightarrow> jsval list \<Rightarrow> (nat \<times> jsval) list" where
  "fan_out s vs =
     (if isStopped s then [] else concat (map (\<lambda>v. map (\<lambda>ob. (snd ob, v)) (observers s)) vs))"

text \<open>
  The shape of the state while the loop of \<^verbatim>\<open>reconnect\<close> waits for a socket: the socket
  made last is the only one connecting, it has the listeners \<^verbatim>\<open>connect\<close> gave it, and its
  promise, made last, is pending and awaited by the loop with counter \<open>t\<close>.
  \<open>connectable\<close>: the stored URL is one \<^verbatim>\<open>reconnect\<close> acts on and the host takes.
\<close>

definition retrying :: "nat \<Rightarrow> int \<Rightarrow> WebSocketHelper \<Rightarrow> bool" where
  "retrying t limits h =
     (\<exists>ss ps.
        sockets h = ss @ [\<lparr>readyState = CONNECTING, onopen = Some (length ps),
                            onerror = Some (ResolveFalse (length ps)),
                            onmessage = None, onclose = None, sent = []\<rparr>]
        \<and> first_connecting ss = None
        \<and> promises h = ps @ [\<lparr>settled = Pending, awaited_by = Some (t, limits)\<rparr>])"

definition connectable :: "(string \<Rightarrow> bool) \<Rightarrow> WebSocketHelper \<Rightarrow> bool" where
  "connectable url_ok h = (url h \<noteq> [] \<and> CHR ''#'' \<notin> set (url h) \<and> url_ok (url h))"



text \<open>
  The states the concrete runs below start from, on a host that takes every URL without
  a fragment: after \<^verbatim>\<open>connect("ws://a", opt)\<close> on a new helper, after that socket has
  opened, and after a second call \<^verbatim>\<open>connect("ws://b")\<close> made while the first socket is still
  connecting.
\<close>

definition any_url :: "string \<Rightarrow> bool" where
  "any_url u = True"

definition dialled :: "WebSocketOptions option \<Rightarrow> WebSocketHelper" where
  "dialled opt = connect any_url ''ws://a'' opt initial"

definition opened :: "WebSocketOptions option \<Rightarrow> WebSocketHelper" where
  "opened opt = fire_open any_url 0 (dialled opt)"


definition retry_twice :: WebSocketOptions where
  "retry_twice = \<lparr>autoReconnect = Some True, reconnectLimits = Some 2\<rparr>"

section \<open>Invariants\<close>

text \<open>
  What holds in every reachable state. \<open>relay_consistent\<close>: there is a publisher while
  \<open>status\<close> is true, and a publisher that is there while \<open>status\<close> is false is stopped.
  \<open>ws_valid\<close>: \<^verbatim>\<open>this.ws\<close> is the socket of the latest call of \<^verbatim>\<open>connect\<close> whose
  constructor returned. \<open>unawaited\<close>: no promise is awaited by the loop of \<^verbatim>\<open>reconnect\<close>.
  \<open>resolved_true\<close>: some call of \<^verbatim>\<open>connect\<close> has resolved with \<^verbatim>\<open>true\<close>.
\<close>

definition relay_consistent :: "WebSocketHelper \<Rightarrow> bool" where
  "relay_consistent h =
     ((status h \<longrightarrow> publisher h \<noteq> None) \<and> (\<forall>s. publisher h = Some s \<longrightarrow> status h \<or> isStopped s))"

definition ws_valid :: "WebSocketHelper \<Rightarrow> bool" where
  "ws_valid h =
     ((ws h = None \<longrightarrow> length (sockets h) = 0) \<and> (\<forall>w. ws h = Some w \<longrightarrow> w < length (sockets h)))"

definition unawaited :: "WebSocketHelper \<Rightarrow> bool" where
  "unawaited h = list_all (\<lambda>p. awaited_by p = None) (promises h)"


definition settled_inv :: "WebSocketHelper \<Rightarrow> bool" where
  "settled_inv h = (ws_valid h \<and> unawaited h)"

declare drain.simps [simp del]

section \<open>What each operation leaves unchanged\<close>

lemma publisher_next_fields [simp]:
  "publisher (snd (publisher_next v h)) = publisher h"
  "status (snd (publisher_next v h)) = status h"
  "cacheMessages (snd (publisher_next v h)) = cacheMessages h"
  "listeners (snd (publisher_next v h)) = listeners h"
  "sockets (snd (publisher_next v h)) = sockets h"
  "promises (snd (publisher_next v h)) = promises h"
  "ws (snd (publisher_next v h)) = ws h"
  "subscribers (snd (publisher_next v h)) = subscribers h"
  "url (snd (publisher_next v h)) = url h"
  "options (snd (publisher_next v h)) = options h"
  "subscriptions (snd (publisher_next v h)) = subscriptions h"
  by (simp_all add: publisher_next_def split: option.splits)

lemma drain_Nil: "cacheMessages h = [] \<Longrightarrow> drain h = (Inr (), h)"
  by (subst drain.simps) simp

lemma drain_snoc:
  assumes "cacheMessages h = xs @ [x]"
  shows "drain h =
     (if x = Text [] then (Inr (), h\<lparr>cacheMessages := xs\<rparr>)
      else case JSON_parse (to_string x) of
             None \<Rightarrow> (Inl SyntaxError, h\<lparr>cacheMessages := xs\<rparr>)
           | Some v \<Rightarrow>
               (case publisher h of
                  None \<Rightarrow> (Inl TypeError, h\<lparr>cacheMessages := xs\<rparr>)
                | Some s \<Rightarrow> drain (snd (publisher_next v (h\<lparr>cacheMessages := xs\<rparr>)))))"
proof -
  obtain y ys where c: "cacheMessages h = y # ys"
    using assms by (cases xs) auto
  have l: "last (y # ys) = x" "butlast (y # ys) = xs"
    using assms c by simp_all
  have "drain h =
     (if x = Text [] then (Inr (), h\<lparr>cacheMessages := xs\<rparr>)
      else case JSON_parse (to_string x) of
             None \<Rightarrow> (Inl SyntaxError, h\<lparr>cacheMessages := xs\<rparr>)
           | Some v \<Rightarrow>
               (case publisher_next v (h\<lparr>cacheMessages := xs\<rparr>) of
                  (Inl e, h2) \<Rightarrow> (Inl e, h2)
                | (Inr u, h2) \<Rightarrow> drain h2))"
    by (subst drain.simps) (simp only: c list.case l Let_def)
  then show ?thesis
    by (simp add: publisher_next_def split: option.splits)
qed

lemma drain_fields_aux:
  "cacheMessages h = xs \<Longrightarrow>
     publisher (snd (drain h)) = publisher h \<and> status (snd (drain h)) = status h
   \<and> listeners (snd (drain h)) = listeners h \<and> sockets (snd (drain h)) = sockets h
   \<and> promises (snd (drain h)) = promises h \<and> ws (snd (drain h)) = ws h
   \<and> subscribers (snd (drain h)) = subscribers h \<and> url (snd (drain h)) = url h
   \<and> options (snd (drain h)) = options h \<and> subscriptions (snd (drain h)) = subscriptions h"
proof (induction xs arbitrary: h rule: rev_induct)
  case Nil
  then show ?case by (simp add: drain_Nil)
next
  case (snoc x xs)
  have step: "cacheMessages (snd (publisher_next v (h\<lparr>cacheMessages := xs\<rparr>))) = xs" for v
    by simp
  show ?case
    using snoc.IH [OF step]
    by (simp add: drain_snoc [OF snoc.prems] split: option.splits)
qed

lemmas drain_fields [simp] = drain_fields_aux [OF refl]

lemma update_socket_fields [simp]:
  "status (update_socket w f h) = status h"
  "publisher (update_socket w f h) = publisher h"
  "ws (update_socket w f h) = ws h"
  "listeners (update_socket w f h) = listeners h"
  "promises (update_socket w f h) = promises h"
  "subscribers (update_socket w f h) = subscribers h"
  "cacheMessages (update_socket w f h) = cacheMessages h"
  "delivered (update_socket w f h) = delivered h"
  "url (update_socket w f h) = url h"
  "options (update_socket w f h) = options h"
  "subscriptions (update_socket w f h) = subscriptions h"
  "length (sockets (update_socket w f h)) = length (sockets h)"
  by (simp_all add: update_socket_def)

lemma connect_awaited_relay [simp]:
  "status (connect_awaited url_ok aw u opt h) = status h"
  "publisher (connect_awaited url_ok aw u opt h) = publisher h"
  by (simp_all add: connect_awaited_def Let_def)

lemma resolve_relay [simp]:
  "status (resolve url_ok p b h) = status h"
  "publisher (resolve url_ok p b h) = publisher h"
  by (simp_all add: resolve_def Let_def split: option.splits prod.splits)

lemma on_error_relay [simp]:
  "status (on_error url_ok h) = status h"
  "publisher (on_error url_ok h) = publisher h"
  by (simp_all add: on_error_def reconnect_def Let_def)

lemma initPublish_relay [simp]:
  "status (initPublish url_ok h) = status h"
  "publisher (initPublish url_ok h) = Some \<lparr>observers = [], isStopped = False\<rparr>"
  by (simp_all add: initPublish_def Let_def split: option.splits)

lemma relay_consistent_connect: "relay_consistent h \<Longrightarrow> relay_consistent (connect url_ok u opt h)"
  by (simp add: relay_consistent_def connect_def)

lemma relay_consistent_send: "relay_consistent h \<Longrightarrow> relay_consistent (snd (send m h))"
  by (auto simp: relay_consistent_def send_def split: option.splits sum.splits)

lemma relay_consistent_close: "relay_consistent h \<Longrightarrow> relay_consistent (close h)"
  by (auto simp: relay_consistent_def close_def split: option.splits)

lemma subscribe_relay [simp]:
  "status (snd (subscribe cb h)) = status h"
  "publisher (snd (subscribe cb h)) = map_option (subject_subscribe (subscriptions h) cb) (publisher h)"
  by (simp_all add: subscribe_def clearCacheMessages_def Let_def split_beta
      split: option.splits sum.splits)

lemma relay_consistent_subscribe: "relay_consistent h \<Longrightarrow> relay_consistent (snd (subscribe cb h))"
  by (auto simp: relay_consistent_def subject_subscribe_def)

lemma relay_consistent_open: "relay_consistent h \<Longrightarrow> relay_consistent (fire_open url_ok i h)"
  by (auto simp: relay_consistent_def fire_open_def Let_def split: option.splits)

lemma relay_consistent_on_next: "relay_consistent h \<Longrightarrow> relay_consistent (on_next d h)"
  by (auto simp: relay_consistent_def on_next_def Let_def split: option.splits)

lemma relay_consistent_message: "relay_consistent h \<Longrightarrow> relay_consistent (fire_message i d h)"
  by (auto simp: fire_message_def observer_next_def relay_consistent_on_next split: option.splits)

lemma relay_consistent_observer_complete: "relay_consistent (observer_complete ob h)" if "relay_consistent h"
  using that by (auto simp: relay_consistent_def observer_complete_def on_complete_def Let_def split: option.splits)

lemma relay_consistent_run_onclose: "relay_consistent h \<Longrightarrow> relay_consistent (run_onclose i h)"
  by (auto simp: run_onclose_def relay_consistent_observer_complete split: option.splits)

lemma relay_consistent_run_onerror: "relay_consistent h \<Longrightarrow> relay_consistent (run_onerror url_ok i h)"
  by (auto simp: run_onerror_def relay_consistent_observer_complete split: option.splits error_listener.splits)
     (simp add: relay_consistent_def)

lemma relay_consistent_update_socket: "relay_consistent h \<Longrightarrow> relay_consistent (update_socket w f h)"
  by (simp add: relay_consistent_def)

lemma relay_consistent_fire_close: "relay_consistent h \<Longrightarrow> relay_consistent (fire_close i h)"
  by (simp add: fire_close_def relay_consistent_run_onclose relay_consistent_update_socket)

lemma relay_consistent_fire_error: "relay_consistent h \<Longrightarrow> relay_consistent (fire_error url_ok i h)"
  by (simp add: fire_error_def relay_consistent_run_onclose relay_consistent_run_onerror relay_consistent_update_socket)

lemma reachable_relay_consistent: "reachable url_ok h \<Longrightarrow> relay_consistent h"
proof (induction rule: reachable.induct)
  case start
  show ?case by (simp add: relay_consistent_def initial_def)
qed (simp_all add: relay_consistent_connect relay_consistent_send relay_consistent_close
      relay_consistent_subscribe relay_consistent_open relay_consistent_message
      relay_consistent_fire_close relay_consistent_fire_error)

lemma ws_valid_connect: "ws_valid h \<Longrightarrow> ws_valid (connect_awaited url_ok aw u opt h)"
  by (auto simp: ws_valid_def connect_awaited_def Let_def)

lemma unawaited_connect: "unawaited h \<Longrightarrow> unawaited (connect_awaited url_ok None u opt h)"
  by (auto simp: unawaited_def connect_awaited_def Let_def)

lemma ws_valid_update_socket: "ws_valid h \<Longrightarrow> ws_valid (update_socket w f h)"
  by (auto simp: ws_valid_def)

lemma send_fields [simp]:
  "ws (snd (send m h)) = ws h"
  "promises (snd (send m h)) = promises h"
  "length (sockets (snd (send m h))) = length (sockets h)"
  by (simp_all add: send_def split: option.splits sum.splits)

lemma close_fields [simp]:
  "ws (close h) = ws h"
  "promises (close h) = promises h"
  "length (sockets (close h)) = length (sockets h)"
  by (simp_all add: close_def split: option.splits)

lemma subscribe_fields [simp]:
  "ws (snd (subscribe cb h)) = ws h"
  "promises (snd (subscribe cb h)) = promises h"
  "sockets (snd (subscribe cb h)) = sockets h"
  by (simp_all add: subscribe_def clearCacheMessages_def Let_def split_beta
      split: option.splits sum.splits)

lemma on_next_fields [simp]:
  "ws (on_next d h) = ws h"
  "promises (on_next d h) = promises h"
  "sockets (on_next d h) = sockets h"
  by (simp_all add: on_next_def Let_def)

lemma observer_next_fields [simp]:
  "ws (observer_next ob d h) = ws h"
  "promises (observer_next ob d h) = promises h"
  "sockets (observer_next ob d h) = sockets h"
  by (simp_all add: observer_next_def)

lemma observer_complete_fields [simp]:
  "ws (observer_complete ob h) = ws h"
  "promises (observer_complete ob h) = promises h"
  "sockets (observer_complete ob h) = sockets h"
  by (simp_all add: observer_complete_def on_complete_def Let_def split: option.splits)

lemma fire_message_fields [simp]:
  "ws (fire_message i d h) = ws h"
  "promises (fire_message i d h) = promises h"
  "sockets (fire_message i d h) = sockets h"
  by (simp_all add: fire_message_def split: option.splits)

lemma run_onclose_fields [simp]:
  "ws (run_onclose i h) = ws h"
  "promises (run_onclose i h) = promises h"
  "sockets (run_onclose i h) = sockets h"
  by (simp_all add: run_onclose_def split: option.splits)

lemma fire_close_fields [simp]:
  "ws (fire_close i h) = ws h"
  "promises (fire_close i h) = promises h"
  "length (sockets (fire_close i h)) = length (sockets h)"
  by (simp_all add: fire_close_def)

lemma resolve_unawaited:
  "unawaited h \<Longrightarrow>
   resolve url_ok p b h =
     (if p < length (promises h) \<and> settled (promises h ! p) = Pending
      then h\<lparr>promises := (promises h)[p := (promises h ! p)\<lparr>settled := Fulfilled b\<rparr>]\<rparr>
      else h)"
  by (auto simp: resolve_def unawaited_def Let_def list_all_length split: option.splits)

lemma unawaited_resolve: "unawaited h \<Longrightarrow> unawaited (resolve url_ok p b h)"
  by (auto simp: resolve_unawaited) (auto simp: unawaited_def list_all_length nth_list_update)

lemma ws_valid_resolve: "unawaited h \<Longrightarrow> ws_valid h \<Longrightarrow> ws_valid (resolve url_ok p b h)"
  by (auto simp: resolve_unawaited) (auto simp: ws_valid_def)

lemma initPublish_Some:
  "ws h = Some w \<Longrightarrow>
   initPublish url_ok h =
     update_socket w
       (\<lambda>s. s\<lparr>onmessage := Some (length (subscribers h)), onclose := Some (length (subscribers h)),
              onerror := Some (ObserverComplete (length (subscribers h)))\<rparr>)
       (h\<lparr>publisher := Some \<lparr>observers = [], isStopped = False\<rparr>,
          subscribers := subscribers h @ [False]\<rparr>)"
  by (simp add: initPublish_def Let_def)

lemma fire_open_inv: "settled_inv h \<Longrightarrow> settled_inv (fire_open url_ok i h)"
proof -
  assume a: "settled_inv h"
  show ?thesis
  proof (cases "i < length (sockets h) \<and> readyState (sockets h ! i) = CONNECTING")
    case False
    then show ?thesis using a by (auto simp: fire_open_def)
  next
    case True
    then obtain w where w: "ws h = Some w" "w < length (sockets h)"
      using a by (cases "ws h") (auto simp: settled_inv_def ws_valid_def)
    let ?h1 = "update_socket i (\<lambda>s. s\<lparr>readyState := OPEN\<rparr>) h"
    have "settled_inv (initPublish url_ok (?h1\<lparr>status := True\<rparr>))"
      using a w by (simp add: initPublish_Some settled_inv_def ws_valid_def unawaited_def)
    then have "settled_inv (resolve url_ok p True (initPublish url_ok (?h1\<lparr>status := True\<rparr>)))" for p
      by (simp add: settled_inv_def unawaited_resolve ws_valid_resolve)
    moreover have "settled_inv ?h1"
      using a by (simp add: settled_inv_def ws_valid_def unawaited_def)
    ultimately show ?thesis using True
      by (simp add: fire_open_def Let_def split: option.splits)
  qed
qed

lemma run_onerror_inv: "settled_inv h \<Longrightarrow> settled_inv (run_onerror url_ok i h)"
  by (auto simp: run_onerror_def settled_inv_def unawaited_resolve ws_valid_resolve
      split: option.splits error_listener.splits)
     (auto simp: ws_valid_def unawaited_def)

lemma fire_error_inv: "settled_inv h \<Longrightarrow> settled_inv (fire_error url_ok i h)"
proof -
  assume a: "settled_inv h"
  have "settled_inv (update_socket i f h)" for f
    using a by (simp add: settled_inv_def ws_valid_def unawaited_def)
  then have "settled_inv (run_onerror url_ok i (update_socket i f h))" for f
    by (rule run_onerror_inv)
  then have "settled_inv (run_onclose i (run_onerror url_ok i (update_socket i f h)))" for f
    by (simp add: settled_inv_def ws_valid_def unawaited_def)
  then show ?thesis using a by (simp add: fire_error_def)
qed

lemma reachable_settled_inv: "reachable url_ok h \<Longrightarrow> settled_inv h"
proof (induction rule: reachable.induct)
  case start
  show ?case by (simp add: settled_inv_def ws_valid_def unawaited_def initial_def)
next
  case (call_connect h u opt)
  then show ?case by (simp add: settled_inv_def connect_def unawaited_connect ws_valid_connect)
next
  case (event_open h i)
  then show ?case by (simp add: fire_open_inv)
next
  case (event_error h i)
  then show ?case by (simp add: fire_error_inv)
qed (simp_all add: settled_inv_def ws_valid_def unawaited_def)


lemma subscribe_unfold:
  "publisher h = Some s \<Longrightarrow>
   subscribe cb h =
     (let h1 = h\<lparr>publisher := Some (subject_subscribe (subscriptions h) cb s),
                  subscriptions := subscriptions h + 1\<rparr>
      in if cacheMessages h = [] then (Inr (), h1\<lparr>listeners := listeners h @ [subscriptions h]\<rparr>)
         else if fst (drain h1) = Inr ()
         then (Inr (), (snd (drain h1))\<lparr>listeners := listeners h @ [subscriptions h]\<rparr>)
         else drain h1)"
proof -
  assume s: "publisher h = Some s"
  let ?h1 = "h\<lparr>publisher := Some (subject_subscribe (subscriptions h) cb s),
                subscriptions := subscriptions h + 1\<rparr>"
  obtain r h2 where d: "drain ?h1 = (r, h2)" by (cases "drain ?h1")
  have "listeners (snd (drain ?h1)) = listeners h" by simp
  then have l: "listeners h2 = listeners h" unfolding d by simp
  have d': "drain (h\<lparr>publisher := Some (subject_subscribe (subscriptions h) cb s),
                subscriptions := Suc (subscriptions h)\<rparr>) = (r, h2)"
    using d by simp
  show ?thesis
    by (cases r) (simp_all add: subscribe_def s clearCacheMessages_def Let_def d' l)
qed



section \<open>What a drain hands out\<close>

lemma blob_text_rejected: "JSON_parse ''[object Blob]'' = None"
  by code_simp

lemma drainable_decode: "drainable d \<Longrightarrow> JSON_parse (to_string d) = Some (decode d)"
  by (cases d) (auto simp: drainable_def decode_def to_string_def blob_text_rejected)

lemma fan_out_Nil [simp]: "fan_out s [] = []"
  by (simp add: fan_out_def)

lemma fan_out_append: "fan_out s (us @ vs) = fan_out s us @ fan_out s vs"
  by (simp add: fan_out_def)

lemma publisher_next_fan_out:
  "publisher h = Some s \<Longrightarrow>
   publisher_next v h = (Inr (), h\<lparr>delivered := delivered h @ fan_out s [v]\<rparr>)"
  by (simp add: publisher_next_def fan_out_def)

lemma drain_drainable:
  "publisher h = Some s \<Longrightarrow> cacheMessages h = before @ after \<Longrightarrow> list_all drainable after \<Longrightarrow>
   drain h = drain (h\<lparr>cacheMessages := before,
                      delivered := delivered h @ fan_out s (map decode (rev after))\<rparr>)"
proof (induction after arbitrary: h rule: rev_induct)
  case Nil
  then have "h\<lparr>cacheMessages := before, delivered := delivered h\<rparr> = h"
    by simp
  then show ?case by simp
next
  case (snoc x xs)
  have x: "drainable x" and xs: "list_all drainable xs"
    using snoc.prems(3) by simp_all
  have c: "cacheMessages h = (before @ xs) @ [x]"
    using snoc.prems(2) by simp
  let ?h' = "h\<lparr>cacheMessages := before @ xs, delivered := delivered h @ fan_out s [decode x]\<rparr>"
  have "drain h = drain ?h'"
    using x snoc.prems(1)
    by (simp add: drain_snoc [OF c] drainable_decode publisher_next_fan_out drainable_def)
  also have "\<dots> = drain (?h'\<lparr>cacheMessages := before,
       delivered := delivered ?h' @ fan_out s (map decode (rev xs))\<rparr>)"
    using snoc.prems(1) xs by (intro snoc.IH) simp_all
  finally show ?case
    by (simp add: fan_out_append [symmetric])
qed

lemma drain_keeps_prefix:
  "cacheMessages h = before @ Text [] # after \<Longrightarrow>
   \<exists>rest. cacheMessages (snd (drain h)) = before @ rest"
proof (induction after arbitrary: h rule: rev_induct)
  case Nil
  then have "cacheMessages h = before @ [Text []]" by simp
  then show ?case by (simp add: drain_snoc)
next
  case (snoc x xs)
  have c: "cacheMessages h = (before @ Text [] # xs) @ [x]"
    using snoc.prems by simp
  have "\<exists>rest. cacheMessages (snd (drain (snd (publisher_next v (h\<lparr>cacheMessages := before @ Text [] # xs\<rparr>)))))
      = before @ rest" for v
    by (intro snoc.IH) simp
  then show ?case
    by (auto simp: drain_snoc [OF c] split: option.splits)
qed

lemma subscribe_drainable:
  assumes "publisher h = Some s" and "list_all drainable (cacheMessages h)"
  shows "subscribe cb h =
     (Inr (), h\<lparr>publisher := Some (subject_subscribe (subscriptions h) cb s),
               subscriptions := subscriptions h + 1,
               cacheMessages := [],
               delivered := delivered h @
                 fan_out (subject_subscribe (subscriptions h) cb s) (map decode (rev (cacheMessages h))),
               listeners := listeners h @ [subscriptions h]\<rparr>)"
proof -
  let ?s = "subject_subscribe (subscriptions h) cb s"
  let ?h1 = "h\<lparr>publisher := Some ?s, subscriptions := subscriptions h + 1\<rparr>"
  have "drain ?h1 = drain (?h1\<lparr>cacheMessages := [],
      delivered := delivered ?h1 @ fan_out ?s (map decode (rev (cacheMessages h)))\<rparr>)"
    using assms(2) by (intro drain_drainable) simp_all
  then have d: "drain ?h1 = (Inr (), ?h1\<lparr>cacheMessages := [],
      delivered := delivered h @ fan_out ?s (map decode (rev (cacheMessages h)))\<rparr>)"
    by (simp add: drain_Nil)
  show ?thesis
  proof (cases "cacheMessages h = []")
    case True
    then show ?thesis by (simp add: subscribe_unfold [OF assms(1)] Let_def)
  next
    case False
    then show ?thesis using d by (simp add: subscribe_unfold [OF assms(1)] Let_def)
  qed
qed



section \<open>The loop of \<^verbatim>\<open>reconnect\<close> against a transport that never opens\<close>

lemma first_connecting_snoc:
  "first_connecting ss = None \<Longrightarrow>
   first_connecting (ss @ [s]) = (if readyState s = CONNECTING then Some (length ss) else None)"
  by (induction ss) (auto split: if_splits)

lemma retrying_first:
  "retrying t limits h \<Longrightarrow> first_connecting (sockets h) = Some (length (sockets h) - 1)"
  by (auto simp: retrying_def first_connecting_snoc)

lemma retrying_step:
  assumes "retrying t limits h" and "connectable url_ok h"
  shows "if int t < limits
         then retrying (Suc t) limits (fire_error url_ok (length (sockets h) - 1) h)
              \<and> connectable url_ok (fire_error url_ok (length (sockets h) - 1) h)
              \<and> length (promises (fire_error url_ok (length (sockets h) - 1) h)) = length (promises h) + 1
         else first_connecting (sockets (fire_error url_ok (length (sockets h) - 1) h)) = None
              \<and> length (promises (fire_error url_ok (length (sockets h) - 1) h)) = length (promises h)"
proof -
  obtain ss ps where
    s: "sockets h = ss @ [\<lparr>readyState = CONNECTING, onopen = Some (length ps),
                            onerror = Some (ResolveFalse (length ps)),
                            onmessage = None, onclose = None, sent = []\<rparr>]"
    and f: "first_connecting ss = None"
    and p: "promises h = ps @ [\<lparr>settled = Pending, awaited_by = Some (t, limits)\<rparr>]"
    using assms(1) by (auto simp: retrying_def)
  let ?closed = "\<lparr>readyState = CLOSED, onopen = Some (length ps),
                            onerror = Some (ResolveFalse (length ps)),
                            onmessage = None, onclose = None, sent = []\<rparr>"
  let ?h0 = "h\<lparr>sockets := ss @ [?closed]\<rparr>"
  have u: "update_socket (length ss) (\<lambda>s. s\<lparr>readyState := CLOSED\<rparr>) h = ?h0"
    by (simp add: update_socket_def s)
  let ?h1 = "?h0\<lparr>promises := ps @ [\<lparr>settled = Fulfilled False, awaited_by = Some (t, limits)\<rparr>]\<rparr>"
  have r: "run_onerror url_ok (length ss) ?h0 =
      (if int t < limits
       then connect_awaited url_ok (Some (Suc t, limits)) (url h) None ?h1
       else ?h1)"
    by (simp add: run_onerror_def resolve_def p Let_def)
  have fc: "first_connecting (ss @ [?closed]) = None"
    by (simp add: first_connecting_snoc f)
  show ?thesis
  proof (cases "int t < limits")
    case True
    have c: "connect_awaited url_ok (Some (Suc t, limits)) (url h) None ?h1 =
       ?h1\<lparr>ws := Some (Suc (length ss)),
           sockets := (ss @ [?closed]) @
                   [\<lparr>readyState = CONNECTING, onopen = Some (Suc (length ps)),
                     onerror = Some (ResolveFalse (Suc (length ps))),
                     onmessage = None, onclose = None, sent = []\<rparr>],
           promises := (ps @ [\<lparr>settled = Fulfilled False, awaited_by = Some (t, limits)\<rparr>])
                 @ [\<lparr>settled = Pending, awaited_by = Some (Suc t, limits)\<rparr>]\<rparr>"
      using assms(2) by (simp add: connect_awaited_def connectable_def Let_def)
    have e: "fire_error url_ok (length ss) h =
        connect_awaited url_ok (Some (Suc t, limits)) (url h) None ?h1"
      using True by (simp add: fire_error_def s u r c run_onclose_def nth_append)
    have "retrying (Suc t) limits (connect_awaited url_ok (Some (Suc t, limits)) (url h) None ?h1)"
      unfolding c retrying_def
      by (rule exI [of _ "ss @ [?closed]"],
          rule exI [of _ "ps @ [\<lparr>settled = Fulfilled False, awaited_by = Some (t, limits)\<rparr>]"])
         (simp add: fc)
    then show ?thesis
      using True assms(2) by (simp add: s e) (simp add: c p connectable_def)
  next
    case False
    have e: "fire_error url_ok (length ss) h = ?h1"
      using False by (simp add: fire_error_def s u r run_onclose_def)
    show ?thesis
      using False by (simp add: s e fc p)
  qed
qed

lemma failing_retrying:
  "retrying t limits h \<Longrightarrow> connectable url_ok h \<Longrightarrow> nat (limits - int t) < n \<Longrightarrow>
   length (promises (failing url_ok n h)) = length (promises h) + nat (limits - int t)
   \<and> first_connecting (sockets (failing url_ok n h)) = None"
proof (induction n arbitrary: t h)
  case 0
  then show ?case by simp
next
  case (Suc n)
  let ?h' = "fire_error url_ok (length (sockets h) - 1) h"
  have f: "failing url_ok (Suc n) h = failing url_ok n ?h'"
    by (simp add: retrying_first [OF Suc.prems(1)])
  show ?case
  proof (cases "int t < limits")
    case True
    then have st: "retrying (Suc t) limits ?h'" "connectable url_ok ?h'"
      "length (promises ?h') = length (promises h) + 1"
      using retrying_step [OF Suc.prems(1,2)] by simp_all
    have "nat (limits - int (Suc t)) < n"
      using True Suc.prems(3) by linarith
    from Suc.IH [OF st(1,2) this] show ?thesis
      unfolding f st(3) using True by simp
  next
    case False
    then have st: "first_connecting (sockets ?h') = None"
      "length (promises ?h') = length (promises h)"
      using retrying_step [OF Suc.prems(1,2)] by simp_all
    have "failing url_ok n ?h' = ?h'"
      using st(1) by (cases n) simp_all
    then show ?thesis
      unfolding f using False st by simp
  qed
qed

lemma reconnect_retrying:
  assumes "connectable url_ok h" and "first_connecting (sockets h) = None"
  shows "retrying 0 limits (reconnect url_ok (Some limits) h)
    \<and> connectable url_ok (reconnect url_ok (Some limits) h)
    \<and> length (promises (reconnect url_ok (Some limits) h)) = length (promises h) + 1
    \<and> reconnect_calls (reconnect url_ok (Some limits) h) = reconnect_calls h + 1"
proof -
  have "retrying 0 limits (reconnect url_ok (Some limits) h)"
    unfolding retrying_def
    using assms
    by (intro exI [of _ "sockets h"] exI [of _ "promises h"])
       (simp add: reconnect_def connect_awaited_def connectable_def Let_def)
  then show ?thesis
    using assms(1) by (simp add: reconnect_def connect_awaited_def connectable_def Let_def)
qed

text \<open>An attempt that opens ends the loop: no further socket is made.\<close>

lemma reconnect_stops_on_open:
  assumes "connectable url_ok h" and "first_connecting (sockets h) = None"
  shows "length (promises (fire_open url_ok (length (sockets h)) (reconnect url_ok (Some limits) h)))
           = length (promises h) + 1
    \<and> settled (promises (fire_open url_ok (length (sockets h)) (reconnect url_ok (Some limits) h))
          ! length (promises h)) = Fulfilled True
    \<and> status (fire_open url_ok (length (sockets h)) (reconnect url_ok (Some limits) h))
    \<and> first_connecting
          (sockets (fire_open url_ok (length (sockets h)) (reconnect url_ok (Some limits) h))) = None"
proof -
  let ?new = "\<lparr>readyState = CONNECTING, onopen = Some (length (promises h)),
               onerror = Some (ResolveFalse (length (promises h))),
               onmessage = None, onclose = None, sent = []\<rparr>"
  let ?r = "h\<lparr>reconnect_calls := reconnect_calls h + 1,
              ws := Some (length (sockets h)),
              sockets := sockets h @ [?new],
              promises := promises h @ [\<lparr>settled = Pending, awaited_by = Some (0, limits)\<rparr>]\<rparr>"
  have r: "reconnect url_ok (Some limits) h = ?r"
    using assms(1) by (simp add: reconnect_def connect_awaited_def connectable_def Let_def)
  have o: "fire_open url_ok (length (sockets h)) ?r =
      ?r\<lparr>status := True,
         publisher := Some \<lparr>observers = [], isStopped = False\<rparr>,
         subscribers := subscribers h @ [False],
         sockets := sockets h @ [?new\<lparr>readyState := OPEN, onmessage := Some (length (subscribers h)),
            onclose := Some (length (subscribers h)),
            onerror := Some (ObserverComplete (length (subscribers h)))\<rparr>],
         promises := promises h @ [\<lparr>settled = Fulfilled True, awaited_by = Some (0, limits)\<rparr>]\<rparr>"
    by (simp add: fire_open_def Let_def update_socket_def initPublish_Some resolve_def)
  show ?thesis
    unfolding r o using assms(2) by (simp add: first_connecting_snoc)
qed

section \<open>\<^verbatim>\<open>reconnect\<close> is never called, and what \<^verbatim>\<open>connect\<close> resolves to\<close>

lemma reconnect_calls_simps [simp]:
  "reconnect_calls (update_socket w f h) = reconnect_calls h"
  "reconnect_calls (connect_awaited url_ok aw u opt h) = reconnect_calls h"
  "reconnect_calls (snd (publisher_next v h)) = reconnect_calls h"
  "reconnect_calls (snd (send m h)) = reconnect_calls h"
  "reconnect_calls (close h) = reconnect_calls h"
  "reconnect_calls (on_complete h) = reconnect_calls h"
  by (simp_all add: update_socket_def connect_awaited_def Let_def publisher_next_def send_def
      close_def on_complete_def split: option.splits sum.splits)

lemma reconnect_calls_drain_aux:
  "cacheMessages h = xs \<Longrightarrow> reconnect_calls (snd (drain h)) = reconnect_calls h"
proof (induction xs arbitrary: h rule: rev_induct)
  case Nil
  then show ?case by (simp add: drain_Nil)
next
  case (snoc x xs)
  have "reconnect_calls (snd (drain (snd (publisher_next v (h\<lparr>cacheMessages := xs\<rparr>)))))
      = reconnect_calls (snd (publisher_next v (h\<lparr>cacheMessages := xs\<rparr>)))" for v
    by (intro snoc.IH) simp
  then show ?case
    by (simp add: drain_snoc [OF snoc.prems] split: option.splits)
qed

lemma reconnect_calls_subscribe [simp]:
  "reconnect_calls (snd (subscribe cb h)) = reconnect_calls h"
proof (cases "publisher h")
  case None
  then show ?thesis by (simp add: subscribe_def)
next
  case (Some s)
  show ?thesis
    by (simp add: subscribe_unfold [OF Some] Let_def reconnect_calls_drain_aux [OF refl])
qed

lemma reconnect_calls_events [simp]:
  "reconnect_calls (observer_complete ob h) = reconnect_calls h"
  "reconnect_calls (observer_next ob d h) = reconnect_calls h"
  "reconnect_calls (fire_message i d h) = reconnect_calls h"
  "reconnect_calls (run_onclose i h) = reconnect_calls h"
  "reconnect_calls (fire_close i h) = reconnect_calls h"
  by (simp_all add: observer_complete_def observer_next_def on_next_def fire_message_def
      run_onclose_def fire_close_def Let_def split: option.splits)

lemma reconnect_calls_resolve:
  "unawaited h \<Longrightarrow> reconnect_calls (resolve url_ok p b h) = reconnect_calls h"
  by (simp add: resolve_unawaited)

lemma reconnect_calls_fire_open:
  assumes "settled_inv h"
  shows "reconnect_calls (fire_open url_ok i h) = reconnect_calls h"
proof (cases "i < length (sockets h) \<and> readyState (sockets h ! i) = CONNECTING")
  case False
  then show ?thesis by (auto simp: fire_open_def)
next
  case True
  then obtain w where w: "ws h = Some w"
    using assms by (cases "ws h") (auto simp: settled_inv_def ws_valid_def)
  let ?h0 = "(update_socket i (\<lambda>s. s\<lparr>readyState := OPEN\<rparr>) h)\<lparr>status := True\<rparr>"
  have i: "reconnect_calls (initPublish url_ok ?h0) = reconnect_calls h"
    "unawaited (initPublish url_ok ?h0)"
    using assms w by (simp_all add: initPublish_Some settled_inv_def unawaited_def)
  show ?thesis
    using True i by (simp add: fire_open_def Let_def reconnect_calls_resolve split: option.splits)
qed

lemma reconnect_calls_fire_error:
  assumes "settled_inv h"
  shows "reconnect_calls (fire_error url_ok i h) = reconnect_calls h"
proof -
  have u: "unawaited (update_socket i f h)" for f
    using assms by (simp add: settled_inv_def unawaited_def)
  have "reconnect_calls (run_onerror url_ok i (update_socket i f h)) = reconnect_calls h" for f
    by (simp add: run_onerror_def reconnect_calls_resolve [OF u]
        split: option.splits error_listener.splits)
  then show ?thesis by (simp add: fire_error_def)
qed

lemma reachable_never_reconnects: "reachable url_ok h \<Longrightarrow> reconnect_calls h = 0"
proof (induction rule: reachable.induct)
  case start
  show ?case by (simp add: initial_def)
next
  case (event_open h i)
  then show ?case
    by (simp add: reconnect_calls_fire_open [OF reachable_settled_inv])
next
  case (event_error h i)
  then show ?case
    by (simp add: reconnect_calls_fire_error [OF reachable_settled_inv])
qed (simp_all add: connect_def)

lemma connect_settles:
  assumes "CHR ''#'' \<notin> set u" and "url_ok u"
  shows "settled (promises (connect url_ok u opt h) ! length (promises h)) = Pending
    \<and> settled (promises (fire_open url_ok (length (sockets h)) (connect url_ok u opt h))
         ! length (promises h)) = Fulfilled True
    \<and> status (fire_open url_ok (length (sockets h)) (connect url_ok u opt h))
    \<and> settled (promises (fire_error url_ok (length (sockets h)) (connect url_ok u opt h))
         ! length (promises h)) = Fulfilled False
    \<and> status (fire_error url_ok (length (sockets h)) (connect url_ok u opt h)) = status h"
proof -
  let ?new = "\<lparr>readyState = CONNECTING, onopen = Some (length (promises h)),
               onerror = Some (ResolveFalse (length (promises h))),
               onmessage = None, onclose = None, sent = []\<rparr>"
  let ?c = "h\<lparr>url := u, options := (case opt of None \<Rightarrow> options h | Some x \<Rightarrow> x),
              ws := Some (length (sockets h)),
              sockets := sockets h @ [?new],
              promises := promises h @ [\<lparr>settled = Pending, awaited_by = None\<rparr>]\<rparr>"
  have c: "connect url_ok u opt h = ?c"
    using assms by (simp add: connect_def connect_awaited_def Let_def)
  have o: "settled (promises (fire_open url_ok (length (sockets h)) ?c) ! length (promises h))
        = Fulfilled True
      \<and> status (fire_open url_ok (length (sockets h)) ?c)"
    by (simp add: fire_open_def Let_def update_socket_def initPublish_Some resolve_def)
  have e: "settled (promises (fire_error url_ok (length (sockets h)) ?c) ! length (promises h))
        = Fulfilled False
      \<and> status (fire_error url_ok (length (sockets h)) ?c) = status h"
    by (simp add: fire_error_def update_socket_def run_onerror_def run_onclose_def resolve_def)
  show ?thesis
    unfolding c using o e by simp
qed

section \<open>A publisher once \<^verbatim>\<open>connect\<close> has resolved with \<^verbatim>\<open>true\<close>\<close>









section \<open>The claims\<close>

subsection \<open>Draining the buffer at \<^verbatim>\<open>subscribe\<close>\<close>

text \<open>
  Claim C1 says that \<^verbatim>\<open>subscribe\<close> delivers every payload that was buffered before the
  first subscriber, each decoded, latest first, and all of them before a payload that
  arrives afterwards. The loop of \<^verbatim>\<open>clearCacheMessages\<close> ends at the first popped value
  that is falsy, and the empty text is falsy. Here the socket opens, the texts
  \<^verbatim>\<open>{"x":1}\<close> and then the empty text arrive, callback 7 subscribes, and the text \<^verbatim>\<open>2\<close>
  arrives: \<^verbatim>\<open>subscribe\<close> returns normally, the callback is handed the later \<^verbatim>\<open>2\<close> and
  nothing else, and \<^verbatim>\<open>{"x":1}\<close> is still in the buffer.
\<close>

theorem subscribe_leaves_payload_behind:
  \<open>fst (subscribe 7 (fire_message 0 (Text '''')
          (fire_message 0 (Text ''{"x":1}'') (opened None)))) = Inr ()
   \<and> delivered (fire_message 0 (Text ''2'')
         (snd (subscribe 7 (fire_message 0 (Text '''')
           (fire_message 0 (Text ''{"x":1}'') (opened None)))))) = [(7, JNumber ''2'')]
   \<and> cacheMessages (fire_message 0 (Text ''2'')
         (snd (subscribe 7 (fire_message 0 (Text '''')
           (fire_message 0 (Text ''{"x":1}'') (opened None)))))) = [Text ''{"x":1}'']\<close>
  by code_simp

text \<open>
  Claim C3 says that a buffered text that is not JSON, such as \<^verbatim>\<open>hello\<close>, reaches the
  subscriber unchanged and that no error is raised. \<^verbatim>\<open>clearCacheMessages\<close> calls
  \<^verbatim>\<open>JSON.parse\<close> outside any \<^verbatim>\<open>try\<close>, unlike the \<^verbatim>\<open>next\<close> callback: the socket opens,
  \<^verbatim>\<open>hello\<close> arrives, callback 7 subscribes, and \<^verbatim>\<open>subscribe\<close> raises a \<^verbatim>\<open>SyntaxError\<close>. The
  callback is handed nothing, the text is gone from the buffer, and the subscription is
  not in \<^verbatim>\<open>listeners\<close>.
\<close>

theorem subscribe_raises_on_buffered_text:
  "fst (subscribe 7 (fire_message 0 (Text ''hello'') (opened None))) = Inl SyntaxError
   \<and> delivered (snd (subscribe 7 (fire_message 0 (Text ''hello'') (opened None)))) = []
   \<and> cacheMessages (snd (subscribe 7 (fire_message 0 (Text ''hello'') (opened None)))) = []
   \<and> listeners (snd (subscribe 7 (fire_message 0 (Text ''hello'') (opened None)))) = []"
  by code_simp

subsection \<open>The publisher and \<^verbatim>\<open>status\<close>\<close>

text \<open>
  Claim C5, as amended: in every reachable state there is a publisher whenever
  \<^verbatim>\<open>status\<close> is true; whenever \<^verbatim>\<open>status\<close> is false the publisher is \<^verbatim>\<open>null\<close> or stopped
  (completed).
\<close>

theorem publisher_follows_status:
  "reachable url_ok h \<Longrightarrow>
     (status h \<longrightarrow> publisher h \<noteq> None)
   \<and> (\<not> status h \<longrightarrow> (case publisher h of None \<Rightarrow> True | Some s \<Rightarrow> isStopped s))"
  using reachable_relay_consistent [of url_ok h]
  by (auto simp: relay_consistent_def split: option.splits)

text \<open>
  The theorem of C5 in two reachable states: after a socket has opened, and after it has
  closed again.
\<close>

theorem publisher_follows_status_witness:
  "reachable any_url (opened None)
   \<and> status (opened None)
   \<and> publisher (opened None) \<noteq> None
   \<and> reachable any_url (fire_close 0 (opened None))
   \<and> \<not> status (fire_close 0 (opened None))
   \<and> (case publisher (fire_close 0 (opened None)) of None \<Rightarrow> True | Some s \<Rightarrow> isStopped s)"
proof -
  have r1: "reachable any_url (opened None)"
    unfolding opened_def dialled_def by (intro reachable.intros)
  have r2: "reachable any_url (fire_close 0 (opened None))"
    unfolding opened_def dialled_def by (intro reachable.intros)
  have s1: "status (opened None)"
    by code_simp
  have s2: "\<not> status (fire_close 0 (opened None))"
    by code_simp
  show ?thesis
    using r1 r2 s1 s2 publisher_follows_status [OF r1] publisher_follows_status [OF r2]
    by blast
qed

text \<open>
  Claim C5 as it is stated fails in that state: \<^verbatim>\<open>status\<close> is false and the publisher is
  not \<^verbatim>\<open>null\<close>. The \<^verbatim>\<open>complete\<close> callback completes the publisher and keeps it.
\<close>

theorem publisher_kept_after_close:
  "\<not> (\<not> status (fire_close 0 (opened None)) \<longrightarrow> publisher (fire_close 0 (opened None)) = None)"
  by code_simp

subsection \<open>Subscribing without a live publisher\<close>




subsection \<open>The empty text in the buffer\<close>




subsection \<open>Transport errors and \<^verbatim>\<open>reconnect\<close>\<close>

text \<open>
  Claim C2 says that a transport error after a successful open calls \<^verbatim>\<open>reconnect\<close> when
  \<^verbatim>\<open>autoReconnect\<close> is true. \<^verbatim>\<open>initPublish\<close> assigns \<^verbatim>\<open>observer.complete\<close> to \<^verbatim>\<open>onerror\<close>,
  so the \<^verbatim>\<open>error\<close> callback, the only caller of \<^verbatim>\<open>reconnect\<close>, is never run: in every
  reachable state and whatever the options, a failing socket leaves the count of calls of
  \<^verbatim>\<open>reconnect\<close> at zero and constructs no socket and no promise.
\<close>

theorem transport_error_never_reconnects:
  "reachable url_ok h \<Longrightarrow>
     reconnect_calls (fire_error url_ok i h) = 0
   \<and> length (promises (fire_error url_ok i h)) = length (promises h)
   \<and> length (sockets (fire_error url_ok i h)) = length (sockets h)"
proof -
  assume r: "reachable url_ok h"
  then have u: "unawaited (update_socket i f h)" for f
    using reachable_settled_inv [of url_ok h] by (simp add: settled_inv_def unawaited_def)
  have "length (promises (run_onerror url_ok i (update_socket i f h))) = length (promises h)
      \<and> length (sockets (run_onerror url_ok i (update_socket i f h))) = length (sockets h)" for f
    by (auto simp: run_onerror_def resolve_unawaited [OF u] split: option.splits error_listener.splits)
  then show ?thesis
    using reachable_never_reconnects [OF reachable.event_error [OF r]]
    by (simp add: fire_error_def)
qed

text \<open>
  The theorem of C2 where the claim fails: \<^verbatim>\<open>connect\<close> with \<^verbatim>\<open>autoReconnect\<close> true and a
  limit of 2, the socket opens, then fails. \<^verbatim>\<open>status\<close> goes back to false and nothing
  else happens.
\<close>

theorem transport_error_never_reconnects_witness:
  "reachable any_url (opened (Some retry_twice))
   \<and> status (opened (Some retry_twice))
   \<and> autoReconnect (options (opened (Some retry_twice))) = Some True
   \<and> reconnect_calls (fire_error any_url 0 (opened (Some retry_twice))) = 0
   \<and> length (promises (fire_error any_url 0 (opened (Some retry_twice))))
       = length (promises (opened (Some retry_twice)))
   \<and> length (sockets (fire_error any_url 0 (opened (Some retry_twice))))
       = length (sockets (opened (Some retry_twice)))
   \<and> first_connecting (sockets (fire_error any_url 0 (opened (Some retry_twice)))) = None
   \<and> \<not> status (fire_error any_url 0 (opened (Some retry_twice)))"
proof -
  have r: "reachable any_url (opened (Some retry_twice))"
    unfolding opened_def dialled_def by (intro reachable.intros)
  have s: "status (opened (Some retry_twice))"
    "autoReconnect (options (opened (Some retry_twice))) = Some True"
    "first_connecting (sockets (fire_error any_url 0 (opened (Some retry_twice)))) = None"
    "\<not> status (fire_error any_url 0 (opened (Some retry_twice)))"
    by code_simp+
  show ?thesis
    using r s transport_error_never_reconnects [OF r, of 0] by simp
qed

text \<open>
  Claim C4 says that against a transport that never opens \<^verbatim>\<open>reconnect\<close> makes exactly
  \<^verbatim>\<open>reconnectLimit\<close> attempts and no more. The loop tests the counter after the attempt
  and before counting it: called with \<^verbatim>\<open>limits\<close>, on a helper with a URL the host takes
  and no socket connecting, it calls \<^verbatim>\<open>connect\<close> exactly \<^verbatim>\<open>limits + 1\<close> times (once when
  \<^verbatim>\<open>limits\<close> is negative) as each attempt fails, and then no socket is connecting.
\<close>

theorem reconnect_attempts_one_more_than_limit:
  assumes "connectable url_ok h" and "first_connecting (sockets h) = None"
    and "nat limits < n"
  shows "length (promises (failing url_ok n (reconnect url_ok (Some limits) h)))
           = length (promises h) + nat limits + 1
    \<and> first_connecting (sockets (failing url_ok n (reconnect url_ok (Some limits) h))) = None"
proof -
  let ?h = "reconnect url_ok (Some limits) h"
  have r: "retrying 0 limits ?h" "connectable url_ok ?h"
    "length (promises ?h) = length (promises h) + 1"
    using reconnect_retrying [OF assms(1,2)] by simp_all
  have "nat (limits - int 0) < n"
    using assms(3) by simp
  from failing_retrying [OF r(1,2) this] show ?thesis
    by (simp add: r(3))
qed

text \<open>
  The theorem of C4 where the claim fails: after the socket of the last run has failed,
  \<^verbatim>\<open>reconnect(2)\<close> against a transport that never opens. One promise was there before;
  three calls of \<^verbatim>\<open>connect\<close> make it four, and a tenth failure finds no socket to fail.
\<close>

theorem reconnect_attempts_one_more_than_limit_witness:
  "connectable any_url (fire_error any_url 0 (opened (Some retry_twice)))
   \<and> first_connecting (sockets (fire_error any_url 0 (opened (Some retry_twice)))) = None
   \<and> nat 2 < (10::nat)
   \<and> length (promises (fire_error any_url 0 (opened (Some retry_twice)))) = 1
   \<and> length (promises (failing any_url 10
         (reconnect any_url (Some 2) (fire_error any_url 0 (opened (Some retry_twice)))))) = 4
   \<and> first_connecting (sockets (failing any_url 10
         (reconnect any_url (Some 2) (fire_error any_url 0 (opened (Some retry_twice)))))) = None"
proof -
  let ?h = "fire_error any_url 0 (opened (Some retry_twice))"
  have c: "connectable any_url ?h"
    by code_simp
  have f: "first_connecting (sockets ?h) = None"
    by code_simp
  have n: "nat 2 < (10::nat)"
    by simp
  have l: "length (promises ?h) = 1"
    by code_simp
  show ?thesis
    using c f l reconnect_attempts_one_more_than_limit [OF c f n] by simp
qed

subsection \<open>What \<^verbatim>\<open>connect\<close> resolves to\<close>

text \<open>
  Claim C7 says that \<^verbatim>\<open>connect\<close> never fails with a rejected promise, whatever the
  address. The constructor of the socket is called inside the executor of the promise
  with nothing to catch what it throws: for an address with a fragment, on any host, in
  any state, the promise \<^verbatim>\<open>connect\<close> returns is rejected with the \<^verbatim>\<open>SyntaxError\<close> of the
  constructor, and no socket is made that could open or fail later.
\<close>

theorem connect_rejects_url_with_fragment:
  "settled (last (promises (connect url_ok ''ws://a/#f'' opt h))) = Rejected SyntaxError
   \<and> length (promises (connect url_ok ''ws://a/#f'' opt h)) = length (promises h) + 1
   \<and> sockets (connect url_ok ''ws://a/#f'' opt h) = sockets h"
  by (simp add: connect_def connect_awaited_def)




subsection \<open>\<^verbatim>\<open>send\<close>\<close>

text \<open>
  Claim C9 says that \<^verbatim>\<open>send\<close> of a value whose serialization fails raises the
  invalid-message error. While the socket of \<^verbatim>\<open>this.ws\<close> is open, \<^verbatim>\<open>send\<close> of a string
  hands that string to the socket, and \<^verbatim>\<open>send\<close> of a value that is not a string and that
  \<^verbatim>\<open>JSON.stringify\<close> serializes hands the serialization to the socket. \<^verbatim>\<open>send\<close> of a
  value on which \<^verbatim>\<open>JSON.stringify\<close> throws leaves the state, and so what the socket was
  handed, as it was, and raises an error: the invalid-message error when the message
  converts to a string, and otherwise the \<^verbatim>\<open>TypeError\<close> thrown while the text of that
  error is put together.
\<close>

theorem send_encodes_or_raises:
  assumes "ws h = Some w" and "w < length (sockets h)" and "readyState (sockets h ! w) = OPEN"
  shows "send (JString s) h = (Inr (), update_socket w (\<lambda>k. k\<lparr>sent := sent k @ [s]\<rparr>) h)
    \<and> sent (sockets (snd (send (JString s) h)) ! w) = sent (sockets h ! w) @ [s]
    \<and> ((\<forall>x. message \<noteq> JString x) \<and> JSON_stringify message = SText t \<longrightarrow>
          fst (send message h) = Inr ()
          \<and> sent (sockets (snd (send message h)) ! w) = sent (sockets h ! w) @ [t])
    \<and> ((\<forall>x. message \<noteq> JString x) \<and> JSON_stringify message = SThrows \<longrightarrow>
          send message h
            = (Inl (if to_string_throws message then TypeError else InvalidMessage), h))"
  using assms
  by (cases message) (simp_all add: send_def encode_def update_socket_def del: to_string_throws.simps JSON_stringify.simps)

text \<open>
  The theorem of C9 on an open socket: the string \<^verbatim>\<open>hi\<close>; the object \<^verbatim>\<open>{x: 1}\<close>; a
  \<^verbatim>\<open>BigInt\<close>, which \<^verbatim>\<open>JSON.stringify\<close> does not serialize; and the object
  \<^verbatim>\<open>{toString: 1, a: 1n}\<close>, where the claim fails: the caller gets a \<^verbatim>\<open>TypeError\<close>.
\<close>

theorem send_encodes_or_raises_witness:
  \<open>ws (opened None) = Some 0
   \<and> 0 < length (sockets (opened None))
   \<and> readyState (sockets (opened None) ! 0) = OPEN
   \<and> sent (sockets (snd (send (JString ''hi'') (opened None))) ! 0) = [''hi'']
   \<and> JSON_stringify (JObject [(''x'', JNumber ''1'')]) = SText ''{"x":1}''
   \<and> sent (sockets (snd (send (JObject [(''x'', JNumber ''1'')]) (opened None))) ! 0)
       = [''{"x":1}'']
   \<and> JSON_stringify (JBigInt 1) = SThrows
   \<and> send (JBigInt 1) (opened None) = (Inl InvalidMessage, opened None)
   \<and> JSON_stringify (JObject [(''toString'', JNumber ''1''), (''a'', JBigInt 1)]) = SThrows
   \<and> send (JObject [(''toString'', JNumber ''1''), (''a'', JBigInt 1)]) (opened None)
       = (Inl TypeError, opened None)\<close>
proof -
  have a: "ws (opened None) = Some 0" "0 < length (sockets (opened None))"
    "readyState (sockets (opened None) ! 0) = OPEN"
    by code_simp+
  have e: "sent (sockets (opened None) ! 0) = []"
    by code_simp
  have j: \<open>JSON_stringify (JObject [(''x'', JNumber ''1'')]) = SText ''{"x":1}''\<close>
    by code_simp
  have b: "JSON_stringify (JBigInt 1) = SThrows" "\<not> to_string_throws (JBigInt 1)"
    by simp_all
  have o: "JSON_stringify (JObject [(''toString'', JNumber ''1''), (''a'', JBigInt 1)]) = SThrows"
    "to_string_throws (JObject [(''toString'', JNumber ''1''), (''a'', JBigInt 1)])"
    by code_simp+
  show ?thesis
    using a e j b o
      send_encodes_or_raises [OF a, of "''hi''" "JObject [(''x'', JNumber ''1'')]" \<open>''{"x":1}''\<close>]
      send_encodes_or_raises [OF a, of "''hi''" "JBigInt 1"]
      send_encodes_or_raises [OF a, of "''hi''" "JObject [(''toString'', JNumber ''1''), (''a'', JBigInt 1)]"]
    by simp
qed

end
